theory Spec2Isabelle
  imports Main "HOL-Library.Char_ord" "HOL-Library.List_Lexorder" "HOL-Library.Multiset"
    "HOL-Library.Signed_Division" "HOL-Library.Word" "HOL-Library.Mapping"
    "HOL-Library.AList_Mapping"
begin

section \<open>The resolver cache of \<^verbatim>\<open>resolver.go\<close>\<close>

text \<open>
  The service keeps, per registered host name, the addresses the last successful lookup
  returned and a rotation cursor. Every exported method and one iteration of a host's
  refresh goroutine is a function on the state. The mutex \<^verbatim>\<open>s.mu\<close> keeps the methods
  apart from each other, but \<^verbatim>\<open>updateHostIPs\<close> writes the record after it has
  released the lock, so its statements can fall between those of a method that holds
  it. The system model therefore also has \<^verbatim>\<open>GetNextIPWithIdx\<close> and the iteration in
  their parts. \<^verbatim>\<open>GetIPs\<close> and \<^verbatim>\<open>GetIPsStr\<close> read the fields of the record they
  looked up after releasing the read lock; lookup and reads are taken together, which
  bears only on what one call returns.

  Go strings are byte strings compared bytewise, which is the lexicographic order on
  \<^typ>\<open>char list\<close> with the order of \<^typ>\<open>char\<close> by code. A nil slice and an empty
  slice are both the empty list: the program never builds an empty slice that is not nil.
  Go's \<^verbatim>\<open>int\<close> is modelled by \<^typ>\<open>int\<close>; the only arithmetic is
  \<^verbatim>\<open>r.idx + 1\<close> and \<^verbatim>\<open>len(ipsv4) - 1\<close>, with the cursor below a slice
  length wherever the program can reach, so nothing wraps.
\<close>

subsection \<open>Data\<close>

text \<open>\<^verbatim>\<open>net.IP\<close> is a byte slice.\<close>

type_synonym IP = "8 word list"

text \<open>
  \<^verbatim>\<open>net.ParseIP\<close> is library code outside the repository: the model takes it as a
  parameter, \<open>None\<close> standing for its nil result.
\<close>

type_synonym parser = "string \<Rightarrow> IP option"

text \<open>\<^verbatim>\<open>type ips struct { idx int; ip4, ip6 []string; ipv4, ipv6 []net.IP }\<close>\<close>

record ips =
  idx :: int
  ip4 :: "string list"
  ip6 :: "string list"
  ipv4 :: "IP list"
  ipv6 :: "IP list"

text \<open>
  The logger is an opaque sink. What the service hands to it is kept as a list of
  entries: the level and the arguments of \<^verbatim>\<open>Println\<close>, unformatted.
\<close>

datatype level = Info | Error | Debug

datatype arg = AStr string | AInt int | AStrs "string list"

type_synonym entry = "level \<times> arg list"

text \<open>
  \<^verbatim>\<open>type svc struct { mu sync.RWMutex; hosts map[string]*ips; tag string; log logApi.Logger }\<close>.
  Every key of \<^verbatim>\<open>hosts\<close> owns a record of its own (the only pointer ever stored is the
  fresh \<^verbatim>\<open>&ips{}\<close> of \<^verbatim>\<open>AddHost\<close>), so the map holds the records by value. A Go map
  is a finite mapping with no order of its keys.
\<close>

record svc =
  hosts :: "(string, ips) mapping"
  tag :: string
  log :: "entry list"

text \<open>The value of \<^verbatim>\<open>&ips{}\<close>.\<close>

definition ips_zero :: ips where
  "ips_zero = \<lparr>idx = 0, ip4 = [], ip6 = [], ipv4 = [], ipv6 = []\<rparr>"

definition New :: "string \<Rightarrow> svc" where
  "New t = \<lparr>hosts = Mapping.empty, tag = t, log = []\<rparr>"

subsection \<open>Registry operations\<close>

definition DelHost :: "string \<Rightarrow> svc \<Rightarrow> svc" where
  "DelHost host s = s\<lparr>hosts := Mapping.delete host (hosts s)\<rparr>"

text \<open>\<^verbatim>\<open>Stop\<close> deletes every key it ranges over, which leaves the empty map.\<close>

definition Stop :: "svc \<Rightarrow> svc" where
  "Stop s = s\<lparr>hosts := Mapping.empty\<rparr>"

subsection \<open>Queries\<close>

text \<open>
  Indexing a slice out of range panics. \<^verbatim>\<open>GetNextIPWithIdx\<close> has already stored the
  new cursor when it indexes, and its deferred unlock runs; the state returned with the
  panic is the one it leaves. Go's \<^verbatim>\<open>%\<close> truncates towards zero (\<open>smod\<close>).
\<close>

datatype panic = IndexOutOfRange

definition GetNextIPWithIdx :: "string \<Rightarrow> svc \<Rightarrow> (panic + string \<times> int) \<times> svc" where
  "GetNextIPWithIdx host s =
     (case Mapping.lookup (hosts s) host of
        Some r \<Rightarrow>
          (let itemsCount = int (length (ip4 r)) in
           if itemsCount = 0 then (Inr ('''', - 1), s)
           else
             (let r' = r\<lparr>idx := (idx r + 1) smod itemsCount\<rparr>;
                  s' = s\<lparr>hosts := Mapping.update host r' (hosts s)\<rparr>
              in if 0 \<le> idx r' \<and> idx r' < itemsCount
                 then (Inr (ip4 r' ! nat (idx r'), idx r'), s')
                 else (Inl IndexOutOfRange, s')))
      | None \<Rightarrow> (Inr ('''', - 1), s))"

definition GetNextIP :: "string \<Rightarrow> svc \<Rightarrow> (panic + string) \<times> svc" where
  "GetNextIP host s =
     (case GetNextIPWithIdx host s of
        (Inr (ip, _), s') \<Rightarrow> (Inr ip, s')
      | (Inl p, s') \<Rightarrow> (Inl p, s'))"

definition GetIPs :: "string \<Rightarrow> svc \<Rightarrow> (IP list \<times> IP list) \<times> svc" where
  "GetIPs host s =
     (case Mapping.lookup (hosts s) host of
        None \<Rightarrow> (([], []), s)
      | Some r \<Rightarrow> ((ipv4 r, ipv6 r), s))"

definition GetIPsStr :: "string \<Rightarrow> svc \<Rightarrow> (string list \<times> string list) \<times> svc" where
  "GetIPsStr host s =
     (case Mapping.lookup (hosts s) host of
        None \<Rightarrow> (([], []), s)
      | Some r \<Rightarrow> ((ip4 r, ip6 r), s))"

text \<open>The decimal digits \<^verbatim>\<open>%d\<close> prints for an index of a \<^verbatim>\<open>range\<close> loop.\<close>

fun show_nat :: "nat \<Rightarrow> string" where
  "show_nat n =
     (if n < 10 then [''0123456789'' ! n]
      else show_nat (n div 10) @ [''0123456789'' ! (n mod 10)])"

declare show_nat.simps [simp del]

text \<open>The lines one family of one host contributes: \<^verbatim>\<open>"%sresolver.v4.%s.%d: %s\n"\<close>.\<close>

definition dump_family :: "string \<Rightarrow> string \<Rightarrow> string \<Rightarrow> string list \<Rightarrow> string" where
  "dump_family prefix fam hostName sorted_ips =
     concat (map (\<lambda>(i, ip).
         prefix @ ''resolver.'' @ fam @ ''.'' @ hostName @ ''.'' @ show_nat i @ '': '' @ ip
           @ [CHR 0x0A])
       (enumerate 0 sorted_ips))"

text \<open>
  \<^verbatim>\<open>DumpPrefix\<close> sorts the host names, and for each host sorts a copy of either string
  list; the result is the text written to \<^verbatim>\<open>w\<close>.
\<close>

definition DumpPrefix :: "string \<Rightarrow> svc \<Rightarrow> string \<times> svc" where
  "DumpPrefix prefix s =
     (concat (map (\<lambda>hostName.
          (case Mapping.lookup (hosts s) hostName of
             None \<Rightarrow> []
           | Some host \<Rightarrow>
               dump_family prefix ''v4'' hostName (sort (ip4 host))
                 @ dump_family prefix ''v6'' hostName (sort (ip6 host))))
        (Mapping.ordered_keys (hosts s))), s)"

definition Dump :: "svc \<Rightarrow> string \<times> svc" where
  "Dump s = DumpPrefix [] s"

subsection \<open>The refresh write\<close>

text \<open>
  The loop of \<^verbatim>\<open>updateHostIPs\<close> over the lookup's strings, with its four slices
  \<^verbatim>\<open>(ipsv4, ipsv6, ipv4, ipv6)\<close> as accumulator: a string \<^verbatim>\<open>net.ParseIP\<close> rejects
  is skipped, one that contains a colon goes to the sixes, any other to the fours.
\<close>

fun parse_loop ::
  "parser \<Rightarrow> string list \<Rightarrow> string list \<times> string list \<times> IP list \<times> IP list
     \<Rightarrow> string list \<times> string list \<times> IP list \<times> IP list" where
  "parse_loop P [] acc = acc"
| "parse_loop P (ip # sip) (ipsv4, ipsv6, ipv4', ipv6') =
     (case P ip of
        None \<Rightarrow> parse_loop P sip (ipsv4, ipsv6, ipv4', ipv6')
      | Some ipp \<Rightarrow>
          if CHR '':'' \<in> set ip
          then parse_loop P sip (ipsv4, ipsv6 @ [ip], ipv4', ipv6' @ [ipp])
          else parse_loop P sip (ipsv4 @ [ip], ipsv6, ipv4' @ [ipp], ipv6'))"

text \<open>
  \<^verbatim>\<open>sort.Strings\<close> puts a slice in increasing order; \<^const>\<open>sort\<close> is the one sorted
  list with the same elements. Only the two string slices are sorted.
\<close>

definition updateHostIPs :: "parser \<Rightarrow> string \<Rightarrow> string list \<Rightarrow> svc \<Rightarrow> bool \<times> svc" where
  "updateHostIPs P host sip s =
     (case Mapping.lookup (hosts s) host of
        None \<Rightarrow> (False, s)
      | Some r \<Rightarrow>
          (case parse_loop P sip ([], [], [], []) of
             (ipsv4, ipsv6, ipv4', ipv6') \<Rightarrow>
               (let ipsv4 = sort ipsv4;
                    ipsv6 = sort ipsv6;
                    r1 = r\<lparr>ip4 := ipsv4, ip6 := ipsv6, ipv4 := ipv4', ipv6 := ipv6'\<rparr>;
                    r2 = (if idx r1 > int (length ipsv4) - 1 then r1\<lparr>idx := 0\<rparr> else r1)
                in (True,
                    s\<lparr>hosts := Mapping.update host r2 (hosts s),
                      log := log s @
                        [(Debug, [AStr (tag s), AStr ''idx:'', AInt (idx r2),
                                  AStr ''host:'', AStr host, AStr ''ips4:'', AStrs ipsv4,
                                  AStr ''ips6:'', AStrs ipsv6])]\<rparr>))))"

subsection \<open>The refresh goroutine\<close>

text \<open>
  \<^verbatim>\<open>net.LookupHost\<close> returns an error (here its message) or the address strings.
\<close>

type_synonym lookup_result = "string + string list"

text \<open>The goroutine's first statement.\<close>

definition loop_start :: "string \<Rightarrow> svc \<Rightarrow> svc" where
  "loop_start host s =
     s\<lparr>log := log s @ [(Info, [AStr (tag s), AStr ''start resolver for:'', AStr host])]\<rparr>"

text \<open>
  One iteration of the \<^verbatim>\<open>for\<close> loop, given what the lookup returned. The boolean
  is whether the loop goes on (to the sleep and the next iteration) or the goroutine
  returns. The sleep itself is not modelled.
\<close>

definition loop_cycle :: "parser \<Rightarrow> string \<Rightarrow> lookup_result \<Rightarrow> svc \<Rightarrow> bool \<times> svc" where
  "loop_cycle P host res s =
     (case res of
        Inr addrs \<Rightarrow>
          (case updateHostIPs P host addrs s of
             (ok, s') \<Rightarrow>
               if \<not> ok
               then (False,
                     s'\<lparr>log := log s' @
                        [(Error, [AStr (tag s'), AStr ''stop resolver for:'', AStr host])]\<rparr>)
               else (True, s'))
      | Inl err \<Rightarrow>
          (True,
           s\<lparr>log := log s @
              [(Error, [AStr (tag s), AStr ''resolve'', AStr host, AStr ''failed:'',
                        AStr err])]\<rparr>))"

subsection \<open>The service with its goroutines\<close>

text \<open>
  A goroutine started by \<^verbatim>\<open>AddHost\<close> is bound to its host name. It has been spawned
  and not yet run, or it is in its loop, or it has returned. It can also be inside
  \<^verbatim>\<open>updateHostIPs\<close> after the lookup of lines 182 to 184, holding no lock, with the
  slices it computed and the next of the statements of lines 215 to 227 to run:
  0 to 3 are the four slice assignments, 4 is the cursor check with the log call and
  the return. The record it writes to is the one its lookup found, named by the
  position of the goroutine that was spawned with that record.
\<close>

datatype gstate =
    Spawned
  | Looping
  | Writing "nat option" nat "string list" "string list" "IP list" "IP list"
  | Exited

text \<open>
  Beside the service and its goroutines the state holds a caller that is inside
  \<^verbatim>\<open>GetNextIPWithIdx\<close> between lines 100 and 105, with the write lock held and the
  count it read, and the records that \<^verbatim>\<open>DelHost\<close> and \<^verbatim>\<open>Stop\<close> took out of the map,
  which a goroutine that looked them up before can still write to.
\<close>

record sys =
  service :: svc
  loops :: "(string \<times> gstate) list"
  call :: "(string \<times> int) option"
  detached :: "(nat \<times> ips) list"

definition boot :: "string \<Rightarrow> sys" where
  "boot t = \<lparr>service = New t, loops = [], call = None, detached = []\<rparr>"

definition AddHost :: "string \<Rightarrow> sys \<Rightarrow> sys" where
  "AddHost host y =
     (case Mapping.lookup (hosts (service y)) host of
        Some _ \<Rightarrow> y
      | None \<Rightarrow>
          y\<lparr>service := (service y)\<lparr>hosts := Mapping.update host ips_zero (hosts (service y))\<rparr>,
            loops := loops y @ [(host, Spawned)]\<rparr>)"

text \<open>
  Every record is stored by the \<^verbatim>\<open>AddHost\<close> that spawns a goroutine for the same
  host, so the record under a key is the one that came with the last goroutine spawned
  for that host.
\<close>

fun last_spawned :: "string \<Rightarrow> (string \<times> gstate) list \<Rightarrow> nat option" where
  "last_spawned h [] = None"
| "last_spawned h (x # xs) =
     (case last_spawned h xs of
        Some i \<Rightarrow> Some (Suc i)
      | None \<Rightarrow> if fst x = h then Some 0 else None)"

text \<open>The record a removal of key \<open>h\<close> takes out of the map, with its name.\<close>

definition detach :: "string \<Rightarrow> sys \<Rightarrow> (nat \<times> ips) list" where
  "detach h y =
     (case (Mapping.lookup (hosts (service y)) h, last_spawned h (loops y)) of
        (Some r, Some i) \<Rightarrow> [(i, r)]
      | _ \<Rightarrow> [])"

text \<open>
  \<^verbatim>\<open>GetNextIPWithIdx\<close> in two steps. The first is lines 95 to 103: it returns at once
  for an unknown host or an empty list, and otherwise keeps the lock with the count
  read. The second is lines 105 to 107 and the deferred unlock: the cursor is stored,
  and the slice as it is then is indexed.
\<close>

definition next_begin :: "string \<Rightarrow> sys \<Rightarrow> sys" where
  "next_begin host y =
     (case Mapping.lookup (hosts (service y)) host of
        Some r \<Rightarrow>
          if int (length (ip4 r)) = 0 then y
          else y\<lparr>call := Some (host, int (length (ip4 r)))\<rparr>
      | None \<Rightarrow> y)"

definition next_end :: "sys \<Rightarrow> (panic + string \<times> int) option \<times> sys" where
  "next_end y =
     (case call y of
        None \<Rightarrow> (None, y)
      | Some (host, itemsCount) \<Rightarrow>
          (case Mapping.lookup (hosts (service y)) host of
             None \<Rightarrow> (None, y\<lparr>call := None\<rparr>)
           | Some r \<Rightarrow>
               (let r' = r\<lparr>idx := (idx r + 1) smod itemsCount\<rparr>;
                    y' = y\<lparr>service :=
                           (service y)\<lparr>hosts := Mapping.update host r' (hosts (service y))\<rparr>,
                         call := None\<rparr>
                in if 0 \<le> idx r' \<and> idx r' < int (length (ip4 r'))
                   then (Some (Inr (ip4 r' ! nat (idx r'), idx r')), y')
                   else (Some (Inl IndexOutOfRange), y'))))"

text \<open>Statement \<open>pc\<close> of lines 215 to 222 on the record it goes to.\<close>

definition write_stmt ::
  "nat \<Rightarrow> string list \<Rightarrow> string list \<Rightarrow> IP list \<Rightarrow> IP list \<Rightarrow> ips \<Rightarrow> ips" where
  "write_stmt pc ipsv4 ipsv6 ipv4' ipv6' r =
     (if pc = 0 then r\<lparr>ip4 := ipsv4\<rparr>
      else if pc = 1 then r\<lparr>ip6 := ipsv6\<rparr>
      else if pc = 2 then r\<lparr>ipv4 := ipv4'\<rparr>
      else if pc = 3 then r\<lparr>ipv6 := ipv6'\<rparr>
      else if idx r > int (length ipsv4) - 1 then r\<lparr>idx := 0\<rparr>
      else r)"

text \<open>
  The first part of an iteration: the lookup of the host name and, when it succeeds,
  lines 182 to 213 of \<^verbatim>\<open>updateHostIPs\<close>.
\<close>

definition go_lookup :: "parser \<Rightarrow> nat \<Rightarrow> string \<Rightarrow> lookup_result \<Rightarrow> sys \<Rightarrow> sys" where
  "go_lookup P n h res y =
     (case res of
        Inl err \<Rightarrow> y\<lparr>service := snd (loop_cycle P h (Inl err) (service y))\<rparr>
      | Inr sip \<Rightarrow>
          (case Mapping.lookup (hosts (service y)) h of
             None \<Rightarrow>
               y\<lparr>service := snd (loop_cycle P h (Inr sip) (service y)),
                 loops := (loops y)[n := (h, Exited)]\<rparr>
           | Some r \<Rightarrow>
               (case parse_loop P sip ([], [], [], []) of
                  (ipsv4, ipsv6, ipv4', ipv6') \<Rightarrow>
                    y\<lparr>loops := (loops y)[n := (h, Writing (last_spawned h (loops y)) 0
                          (sort ipsv4) (sort ipsv6) ipv4' ipv6')]\<rparr>)))"

text \<open>
  The next statement of a goroutine inside \<^verbatim>\<open>updateHostIPs\<close>. It goes to the record
  under the host's key if that is still the record the lookup found, and to the
  detached record otherwise.
\<close>

definition go_write ::
  "nat \<Rightarrow> string \<Rightarrow> nat option \<Rightarrow> nat \<Rightarrow> string list \<Rightarrow> string list \<Rightarrow> IP list \<Rightarrow> IP list
     \<Rightarrow> sys \<Rightarrow> sys" where
  "go_write n h tgt pc ipsv4 ipsv6 ipv4' ipv6' y =
     (let attached = (last_spawned h (loops y) = tgt);
          old = (if attached then Mapping.lookup (hosts (service y)) h
                 else (case tgt of None \<Rightarrow> None | Some i \<Rightarrow> map_of (detached y) i))
      in case old of
           None \<Rightarrow> y\<lparr>loops := (loops y)[n := (h, Looping)]\<rparr>
         | Some r \<Rightarrow>
             (let r' = write_stmt pc ipsv4 ipsv6 ipv4' ipv6' r;
                  s1 = (if attached
                        then (service y)\<lparr>hosts := Mapping.update h r' (hosts (service y))\<rparr>
                        else service y);
                  d1 = (if attached then detached y
                        else (case tgt of None \<Rightarrow> detached y | Some i \<Rightarrow> (i, r') # detached y))
              in if pc < 4
                 then y\<lparr>service := s1, detached := d1,
                        loops := (loops y)[n := (h, Writing tgt (Suc pc) ipsv4 ipsv6 ipv4' ipv6')]\<rparr>
                 else y\<lparr>service := s1\<lparr>log := log s1 @
                          [(Debug, [AStr (tag s1), AStr ''idx:'', AInt (idx r'),
                                    AStr ''host:'', AStr h, AStr ''ips4:'', AStrs ipsv4,
                                    AStr ''ips6:'', AStrs ipsv6])]\<rparr>,
                        detached := d1,
                        loops := (loops y)[n := (h, Looping)]\<rparr>))"

text \<open>
  What can happen next: a caller invokes a method, or goroutine \<open>n\<close> (in spawning
  order) runs its first statement or one iteration of its loop, for which the lookup
  returned \<open>res\<close>. A goroutine that has returned takes no step. A method call and an
  iteration can run with nothing in between (\<open>Call\<close>\<dots>, \<open>GoCycle\<close>), or in their
  parts: \<open>GoLookup\<close> and then five times \<open>GoWrite\<close> for the iteration,
  \<open>NextBegin\<close> and \<open>NextEnd\<close> for \<^verbatim>\<open>GetNextIPWithIdx\<close>, with steps of others between
  them.
\<close>

datatype event =
    CallAddHost string
  | CallDelHost string
  | CallStop
  | CallGetNextIP string
  | CallGetNextIPWithIdx string
  | CallGetIPs string
  | CallGetIPsStr string
  | CallDump
  | CallDumpPrefix string
  | GoStart nat
  | GoCycle nat lookup_result
  | GoLookup nat lookup_result
  | GoWrite nat
  | NextBegin string
  | NextEnd

fun exec :: "parser \<Rightarrow> event \<Rightarrow> sys \<Rightarrow> sys" where
  "exec P (CallAddHost h) y = AddHost h y"
| "exec P (CallDelHost h) y =
     y\<lparr>service := DelHost h (service y), detached := detach h y @ detached y\<rparr>"
| "exec P CallStop y =
     y\<lparr>service := Stop (service y),
       detached := concat (map (\<lambda>h. detach h y) (Mapping.ordered_keys (hosts (service y))))
                     @ detached y\<rparr>"
| "exec P (CallGetNextIP h) y = y\<lparr>service := snd (GetNextIP h (service y))\<rparr>"
| "exec P (CallGetNextIPWithIdx h) y = y\<lparr>service := snd (GetNextIPWithIdx h (service y))\<rparr>"
| "exec P (CallGetIPs h) y = y\<lparr>service := snd (GetIPs h (service y))\<rparr>"
| "exec P (CallGetIPsStr h) y = y\<lparr>service := snd (GetIPsStr h (service y))\<rparr>"
| "exec P CallDump y = y\<lparr>service := snd (Dump (service y))\<rparr>"
| "exec P (CallDumpPrefix prefix) y = y\<lparr>service := snd (DumpPrefix prefix (service y))\<rparr>"
| "exec P (GoStart n) y =
     (if n < length (loops y) then
        (case loops y ! n of
           (h, Spawned) \<Rightarrow>
             y\<lparr>service := loop_start h (service y), loops := (loops y)[n := (h, Looping)]\<rparr>
         | _ \<Rightarrow> y)
      else y)"
| "exec P (GoCycle n res) y =
     (if n < length (loops y) then
        (case loops y ! n of
           (h, Looping) \<Rightarrow>
             (case loop_cycle P h res (service y) of
                (continue, s') \<Rightarrow>
                  y\<lparr>service := s',
                    loops := (loops y)[n := (h, if continue then Looping else Exited)]\<rparr>)
         | _ \<Rightarrow> y)
      else y)"
| "exec P (GoLookup n res) y =
     (if n < length (loops y) then
        (case loops y ! n of
           (h, Looping) \<Rightarrow> go_lookup P n h res y
         | _ \<Rightarrow> y)
      else y)"
| "exec P (GoWrite n) y =
     (if n < length (loops y) then
        (case loops y ! n of
           (h, Writing tgt pc ipsv4 ipsv6 ipv4' ipv6') \<Rightarrow>
             go_write n h tgt pc ipsv4 ipsv6 ipv4' ipv6' y
         | _ \<Rightarrow> y)
      else y)"
| "exec P (NextBegin h) y = next_begin h y"
| "exec P NextEnd y = snd (next_end y)"

text \<open>
  While a caller is inside \<^verbatim>\<open>GetNextIPWithIdx\<close> the write lock is held, and whatever
  takes \<^verbatim>\<open>s.mu\<close> has to wait: every method, and the lookup of
  \<^verbatim>\<open>updateHostIPs\<close>. The goroutine's first statement, a failed lookup and the field
  writes of \<^verbatim>\<open>updateHostIPs\<close> take no lock.
\<close>

fun takes_mu :: "event \<Rightarrow> bool" where
  "takes_mu (GoStart n) = False"
| "takes_mu (GoCycle n (Inl err)) = False"
| "takes_mu (GoLookup n (Inl err)) = False"
| "takes_mu (GoWrite n) = False"
| "takes_mu NextEnd = False"
| "takes_mu e = True"

text \<open>A run: an event that has to wait for the lock does not happen.\<close>

fun run :: "parser \<Rightarrow> event list \<Rightarrow> sys \<Rightarrow> sys" where
  "run P [] y = y"
| "run P (e # es) y =
     run P es (if call y \<noteq> None \<and> takes_mu e then y else exec P e y)"

text \<open>
  For concrete runs: the values of \<^verbatim>\<open>net.ParseIP\<close> on four literals (the 16-byte form,
  an IPv4 address mapped into \<^verbatim>\<open>::ffff:0:0/96\<close>); every other string, such as
  \<^verbatim>\<open>not-an-ip\<close>, is taken as one the library rejects.
\<close>

definition v4in6 :: "8 word \<Rightarrow> 8 word \<Rightarrow> 8 word \<Rightarrow> 8 word \<Rightarrow> IP" where
  "v4in6 a b c d = [0, 0, 0, 0, 0, 0, 0, 0, 0, 0, 0xff, 0xff, a, b, c, d]"

definition ParseIP_sample :: parser where
  "ParseIP_sample =
     map_of
       [(''10.0.0.1'', v4in6 10 0 0 1),
        (''10.0.0.2'', v4in6 10 0 0 2),
        (''10.0.0.3'', v4in6 10 0 0 3),
        (''10.0.0.4'', v4in6 10 0 0 4),
        (''10.0.0.5'', v4in6 10 0 0 5),
        (''::1'', [0, 0, 0, 0, 0, 0, 0, 0, 0, 0, 0, 0, 0, 0, 0, 1])]"

subsection \<open>What a refresh installs, in the specification's words\<close>

text \<open>
  The lookup's strings that parse, split by syntactic form: without a colon (IPv4) and
  with one (IPv6), each in the order the lookup returned them.
\<close>

definition partition_v4 :: "parser \<Rightarrow> string list \<Rightarrow> string list" where
  "partition_v4 P sip = filter (\<lambda>x. P x \<noteq> None \<and> CHR '':'' \<notin> set x) sip"

definition partition_v6 :: "parser \<Rightarrow> string list \<Rightarrow> string list" where
  "partition_v6 P sip = filter (\<lambda>x. P x \<noteq> None \<and> CHR '':'' \<in> set x) sip"

text \<open>
  The record a successful refresh leaves for a host whose record was \<open>r\<close>: the string
  lists sorted, the binary lists the parses in lookup order, the cursor kept if it still
  indexes the new IPv4 list and 0 otherwise.
\<close>

definition installed :: "parser \<Rightarrow> string list \<Rightarrow> ips \<Rightarrow> ips" where
  "installed P sip r =
     \<lparr>idx = (if int (length (partition_v4 P sip)) \<le> idx r then 0 else idx r),
      ip4 = sort (partition_v4 P sip),
      ip6 = sort (partition_v6 P sip),
      ipv4 = map (the \<circ> P) (partition_v4 P sip),
      ipv6 = map (the \<circ> P) (partition_v6 P sip)\<rparr>"

text \<open>The cursor indexes the IPv4 list, or is 0 when the list is empty.\<close>

definition cursor_ok :: "ips \<Rightarrow> bool" where
  "cursor_ok r =
     (if ip4 r = [] then idx r = 0 else 0 \<le> idx r \<and> idx r < int (length (ip4 r)))"

text \<open>
  What holds of the registry as long as no method and no iteration is interrupted: every
  record's cursor is in range and either binary list is as long as the string list of
  its family.
\<close>

definition records_ok :: "svc \<Rightarrow> bool" where
  "records_ok s =
     (\<forall>h r. Mapping.lookup (hosts s) h = Some r \<longrightarrow>
        cursor_ok r \<and> length (ipv4 r) = length (ip4 r) \<and> length (ipv6 r) = length (ip6 r))"

text \<open>What holds of every record whatever the schedule: the cursor is not negative.\<close>

definition idx_nonneg :: "svc \<Rightarrow> bool" where
  "idx_nonneg s = (\<forall>h r. Mapping.lookup (hosts s) h = Some r \<longrightarrow> 0 \<le> idx r)"

text \<open>The events that run a method or an iteration with nothing in between.\<close>

fun whole :: "event \<Rightarrow> bool" where
  "whole (GoLookup n res) = False"
| "whole (GoWrite n) = False"
| "whole (NextBegin h) = False"
| "whole NextEnd = False"
| "whole e = True"


text \<open>The events that are steps of goroutine \<open>n\<close>.\<close>

fun step_of :: "nat \<Rightarrow> event \<Rightarrow> bool" where
  "step_of n (GoStart m) = (m = n)"
| "step_of n (GoCycle m res) = (m = n)"
| "step_of n (GoLookup m res) = (m = n)"
| "step_of n (GoWrite m) = (m = n)"
| "step_of n e = False"

subsection \<open>Lock operations and field writes, in program order\<close>

text \<open>
  What one call does to the mutex \<^verbatim>\<open>s.mu\<close>, the map and the fields of the host's
  record, statement by statement, when it runs from state \<open>s\<close> with no other goroutine
  in between. The read of \<^verbatim>\<open>r.idx\<close> and the log call are left out.
\<close>

datatype action =
    RLock
  | RUnlock
  | Lock
  | Unlock
  | ReadHosts string
  | WriteIp4 "string list"
  | WriteIp6 "string list"
  | WriteIpv4 "IP list"
  | WriteIpv6 "IP list"
  | WriteIdx int

text \<open>
  \<^verbatim>\<open>updateHostIPs\<close>: lines 182 to 184 look the record up under the read lock and
  release it; line 187 returns; lines 215 to 218 store the four slices; line 221 resets
  the cursor.
\<close>

definition updateHostIPs_actions :: "parser \<Rightarrow> string \<Rightarrow> string list \<Rightarrow> svc \<Rightarrow> action list" where
  "updateHostIPs_actions P host sip s =
     [RLock, ReadHosts host, RUnlock] @
     (case Mapping.lookup (hosts s) host of
        None \<Rightarrow> []
      | Some r \<Rightarrow>
          (case parse_loop P sip ([], [], [], []) of
             (ipsv4, ipsv6, ipv4', ipv6') \<Rightarrow>
               [WriteIp4 (sort ipsv4), WriteIp6 (sort ipsv6), WriteIpv4 ipv4', WriteIpv6 ipv6']
                 @ (if idx r > int (length (sort ipsv4)) - 1 then [WriteIdx 0] else [])))"

text \<open>
  \<^verbatim>\<open>GetNextIPWithIdx\<close>: line 95 takes the write lock, the deferred unlock of line 96
  runs last.
\<close>

definition GetNextIPWithIdx_actions :: "string \<Rightarrow> svc \<Rightarrow> action list" where
  "GetNextIPWithIdx_actions host s =
     [Lock, ReadHosts host] @
     (case Mapping.lookup (hosts s) host of
        None \<Rightarrow> []
      | Some r \<Rightarrow>
          (if int (length (ip4 r)) = 0 then []
           else [WriteIdx ((idx r + 1) smod int (length (ip4 r)))]))
     @ [Unlock]"

text \<open>The effect of the field writes on the record they go to.\<close>

fun write_field :: "action \<Rightarrow> ips \<Rightarrow> ips" where
  "write_field (WriteIp4 v) r = r\<lparr>ip4 := v\<rparr>"
| "write_field (WriteIp6 v) r = r\<lparr>ip6 := v\<rparr>"
| "write_field (WriteIpv4 v) r = r\<lparr>ipv4 := v\<rparr>"
| "write_field (WriteIpv6 v) r = r\<lparr>ipv6 := v\<rparr>"
| "write_field (WriteIdx v) r = r\<lparr>idx := v\<rparr>"
| "write_field a r = r"

fun replay :: "action list \<Rightarrow> ips \<Rightarrow> ips" where
  "replay [] r = r"
| "replay (a # as) r = replay as (write_field a r)"

fun is_write :: "action \<Rightarrow> bool" where
  "is_write (WriteIp4 v) = True"
| "is_write (WriteIp6 v) = True"
| "is_write (WriteIpv4 v) = True"
| "is_write (WriteIpv6 v) = True"
| "is_write (WriteIdx v) = True"
| "is_write a = False"

text \<open>How the calling goroutine holds \<^verbatim>\<open>s.mu\<close>.\<close>

datatype held = Unheld | Shared | Exclusive

fun lock_step :: "action \<Rightarrow> held \<Rightarrow> held" where
  "lock_step RLock h = Shared"
| "lock_step RUnlock h = Unheld"
| "lock_step Lock h = Exclusive"
| "lock_step Unlock h = Unheld"
| "lock_step a h = h"

text \<open>The field writes of a sequence that happen while the write lock is not held.\<close>

fun unguarded :: "held \<Rightarrow> action list \<Rightarrow> action list" where
  "unguarded h [] = []"
| "unguarded h (a # as) =
     (if is_write a \<and> h \<noteq> Exclusive then [a] else []) @ unguarded (lock_step a h) as"

subsection \<open>A concrete run\<close>

text \<open>
  Host \<^verbatim>\<open>a\<close> is registered, its goroutine starts, and the first lookup returns three
  IPv4 literals out of order, one IPv6 literal and one string that is no address.
\<close>

definition demo_events :: "event list" where
  "demo_events =
     [CallAddHost ''a'', GoStart 0,
      GoCycle 0 (Inr [''10.0.0.3'', ''not-an-ip'', ''::1'', ''10.0.0.1'', ''10.0.0.2''])]"

definition demo_record :: ips where
  "demo_record =
     \<lparr>idx = 0, ip4 = [''10.0.0.1'', ''10.0.0.2'', ''10.0.0.3''], ip6 = [''::1''],
      ipv4 = [v4in6 10 0 0 3, v4in6 10 0 0 1, v4in6 10 0 0 2],
      ipv6 = [[0, 0, 0, 0, 0, 0, 0, 0, 0, 0, 0, 0, 0, 0, 0, 1]]\<rparr>"

text \<open>
  A second run: the lookup returns five IPv4 literals and three calls move the cursor
  to 3.
\<close>

definition five_events :: "event list" where
  "five_events =
     [CallAddHost ''a'', GoStart 0,
      GoCycle 0 (Inr [''10.0.0.5'', ''10.0.0.4'', ''10.0.0.3'', ''10.0.0.2'', ''10.0.0.1'']),
      CallGetNextIPWithIdx ''a'', CallGetNextIP ''a'', CallGetNextIPWithIdx ''a'']"

definition five_record :: ips where
  "five_record =
     \<lparr>idx = 3,
      ip4 = [''10.0.0.1'', ''10.0.0.2'', ''10.0.0.3'', ''10.0.0.4'', ''10.0.0.5''],
      ip6 = [],
      ipv4 = [v4in6 10 0 0 5, v4in6 10 0 0 4, v4in6 10 0 0 3, v4in6 10 0 0 2, v4in6 10 0 0 1],
      ipv6 = []\<rparr>"

definition two_record :: ips where
  "two_record =
     \<lparr>idx = 0, ip4 = [''10.0.0.1'', ''10.0.0.2''], ip6 = [],
      ipv4 = [v4in6 10 0 0 2, v4in6 10 0 0 1], ipv6 = []\<rparr>"

text \<open>
  A third run: after the first run the host is removed, then its goroutine completes an
  iteration, and later the host is registered again.
\<close>

definition removed :: sys where
  "removed = run ParseIP_sample (demo_events @ [CallDelHost ''a'']) (boot ''t'')"

definition stopped :: sys where
  "stopped = exec ParseIP_sample (GoCycle 0 (Inr [''10.0.0.1''])) removed"

definition later_events :: "event list" where
  "later_events =
     [CallAddHost ''a'', GoCycle 0 (Inr [''10.0.0.2'']), GoStart 1, GoStart 0,
      GoCycle 1 (Inr [''10.0.0.3''])]"

text \<open>
  A fourth run, with a refresh and a call in each other's way. Host \<^verbatim>\<open>a\<close> has five
  IPv4 addresses and the cursor at 0. Its goroutine's next lookup returns one address,
  and the goroutine gets as far as line 213 of \<^verbatim>\<open>updateHostIPs\<close>, the read lock
  released. A caller enters \<^verbatim>\<open>GetNextIPWithIdx\<close>, takes the write lock and reads the
  count 5 at line 100. The goroutine, which needs no lock for it, runs lines 215 to 227.
  What remains is for the caller to run lines 105 to 107.
\<close>

definition race_events :: "event list" where
  "race_events =
     [CallAddHost ''a'', GoStart 0,
      GoCycle 0 (Inr [''10.0.0.5'', ''10.0.0.4'', ''10.0.0.3'', ''10.0.0.2'', ''10.0.0.1'']),
      GoLookup 0 (Inr [''10.0.0.1'']),
      NextBegin ''a'',
      GoWrite 0, GoWrite 0, GoWrite 0, GoWrite 0, GoWrite 0]"

definition one_record :: ips where
  "one_record =
     \<lparr>idx = 1, ip4 = [''10.0.0.1''], ip6 = [], ipv4 = [v4in6 10 0 0 1], ipv6 = []\<rparr>"

section \<open>Lemmas\<close>

subsection \<open>The refresh write\<close>

lemma parse_loop_eq:
  "parse_loop P sip (a, b, c, d) =
     (a @ partition_v4 P sip, b @ partition_v6 P sip,
      c @ map (the \<circ> P) (partition_v4 P sip), d @ map (the \<circ> P) (partition_v6 P sip))"
  by (induction sip arbitrary: a b c d)
     (auto simp: partition_v4_def partition_v6_def split: option.splits)

lemma updateHostIPs_present:
  assumes "Mapping.lookup (hosts s) host = Some r"
  shows "updateHostIPs P host sip s =
     (True, s\<lparr>hosts := Mapping.update host (installed P sip r) (hosts s),
              log := log s @
                [(Debug, [AStr (tag s), AStr ''idx:'', AInt (idx (installed P sip r)),
                          AStr ''host:'', AStr host, AStr ''ips4:'', AStrs (ip4 (installed P sip r)),
                          AStr ''ips6:'', AStrs (ip6 (installed P sip r))])]\<rparr>)"
  using assms by (cases r) (auto simp: updateHostIPs_def parse_loop_eq installed_def Let_def)

lemma updateHostIPs_absent:
  "Mapping.lookup (hosts s) host = None \<Longrightarrow> updateHostIPs P host sip s = (False, s)"
  by (simp add: updateHostIPs_def)

subsection \<open>The cursor invariant\<close>

lemma cursor_ok_zero: "cursor_ok ips_zero"
  by (simp add: cursor_ok_def ips_zero_def)

lemma sort_eq_Nil: "sort xs = [] \<longleftrightarrow> xs = []"
  by (metis length_sort length_0_conv)

lemma cursor_ok_installed: "0 \<le> idx r \<Longrightarrow> cursor_ok (installed P sip r)"
  by (auto simp: cursor_ok_def installed_def sort_eq_Nil)

lemma cursor_ok_nonneg: "cursor_ok r \<Longrightarrow> 0 \<le> idx r"
  by (auto simp: cursor_ok_def split: if_splits)

lemma smod_nonneg: "0 \<le> (a::int) \<Longrightarrow> 0 < b \<Longrightarrow> a smod b = a mod b"
  by (simp add: signed_modulo_int_def sgn_if)

lemma GetNextIPWithIdx_present:
  assumes "Mapping.lookup (hosts s) host = Some r" "ip4 r \<noteq> []" "0 \<le> idx r"
  shows "GetNextIPWithIdx host s =
     (Inr (ip4 r ! nat ((idx r + 1) mod int (length (ip4 r))), (idx r + 1) mod int (length (ip4 r))),
      s\<lparr>hosts := Mapping.update host (r\<lparr>idx := (idx r + 1) mod int (length (ip4 r))\<rparr>) (hosts s)\<rparr>)"
  using assms by (auto simp: GetNextIPWithIdx_def Let_def smod_nonneg)

lemma records_ok_New: "records_ok (New t)"
  by (simp add: records_ok_def New_def)

lemma lookup_delete_if:
  "Mapping.lookup (Mapping.delete k m) k' = (if k = k' then None else Mapping.lookup m k')"
  by simp

lemma records_ok_DelHost: "records_ok s \<Longrightarrow> records_ok (DelHost h s)"
  by (auto simp: records_ok_def DelHost_def lookup_delete_if split: if_splits)

lemma records_ok_Stop: "records_ok (Stop s)"
  by (simp add: records_ok_def Stop_def)

lemma records_ok_update:
  assumes "records_ok s" "cursor_ok r'" "length (ipv4 r') = length (ip4 r')"
    "length (ipv6 r') = length (ip6 r')"
  shows "records_ok (s\<lparr>hosts := Mapping.update h r' (hosts s)\<rparr>)"
  using assms by (auto simp: records_ok_def Mapping.lookup_update' split: if_splits)

lemma records_ok_log [simp]: "records_ok (s\<lparr>log := l\<rparr>) = records_ok s"
  by (simp add: records_ok_def)

lemma cursor_ok_advance:
  assumes "cursor_ok r" "ip4 r \<noteq> []"
  shows "cursor_ok (r\<lparr>idx := (idx r + 1) mod int (length (ip4 r))\<rparr>)"
  using assms by (simp add: cursor_ok_def)

lemma records_ok_GetNextIPWithIdx:
  assumes "records_ok s"
  shows "records_ok (snd (GetNextIPWithIdx h s))"
proof (cases "Mapping.lookup (hosts s) h")
  case None
  then show ?thesis using assms by (simp add: GetNextIPWithIdx_def)
next
  case (Some r)
  with assms have ok: "cursor_ok r" "length (ipv4 r) = length (ip4 r)"
    "length (ipv6 r) = length (ip6 r)"
    by (auto simp: records_ok_def)
  show ?thesis
  proof (cases "ip4 r = []")
    case True
    with Some assms show ?thesis by (simp add: GetNextIPWithIdx_def)
  next
    case False
    from GetNextIPWithIdx_present [OF Some False cursor_ok_nonneg [OF ok(1)]]
    show ?thesis
      using records_ok_update [OF assms cursor_ok_advance [OF ok(1) False]] ok by simp
  qed
qed

lemma GetNextIP_snd: "snd (GetNextIP h s) = snd (GetNextIPWithIdx h s)"
  by (simp add: GetNextIP_def split: prod.splits sum.splits)

lemma records_ok_updateHostIPs:
  assumes "records_ok s"
  shows "records_ok (snd (updateHostIPs P h sip s))"
proof (cases "Mapping.lookup (hosts s) h")
  case None
  then show ?thesis using assms by (simp add: updateHostIPs_absent)
next
  case (Some r)
  with assms have "cursor_ok r" by (auto simp: records_ok_def)
  then have "cursor_ok (installed P sip r)"
    by (intro cursor_ok_installed cursor_ok_nonneg)
  moreover have "length (ipv4 (installed P sip r)) = length (ip4 (installed P sip r))"
    "length (ipv6 (installed P sip r)) = length (ip6 (installed P sip r))"
    by (simp_all add: installed_def)
  ultimately show ?thesis
    using records_ok_update [OF assms, of "installed P sip r" h]
    by (simp add: updateHostIPs_present [OF Some])
qed

lemma records_ok_loop_cycle:
  assumes "records_ok s"
  shows "records_ok (snd (loop_cycle P h res s))"
proof (cases res)
  case (Inl err)
  then show ?thesis using assms by (simp add: loop_cycle_def)
next
  case (Inr addrs)
  obtain ok s' where u: "updateHostIPs P h addrs s = (ok, s')"
    by (cases "updateHostIPs P h addrs s")
  with records_ok_updateHostIPs [OF assms, of P h addrs] have "records_ok s'" by simp
  with Inr u show ?thesis by (simp add: loop_cycle_def)
qed

lemma records_ok_AddHost: "records_ok (service y) \<Longrightarrow> records_ok (service (AddHost h y))"
  using records_ok_update [of "service y" ips_zero h] cursor_ok_zero
  by (auto simp: AddHost_def ips_zero_def split: option.splits)

lemma records_ok_exec:
  "records_ok (service y) \<Longrightarrow> whole e \<Longrightarrow> records_ok (service (exec P e y))"
proof (cases e)
  case (GoCycle n res)
  assume ok: "records_ok (service y)"
  show ?thesis
  proof (cases "n < length (loops y)")
    case False
    with GoCycle ok show ?thesis by simp
  next
    case True
    obtain h g where l: "loops y ! n = (h, g)" by (cases "loops y ! n")
    obtain c s' where u: "loop_cycle P h res (service y) = (c, s')"
      by (cases "loop_cycle P h res (service y)")
    with records_ok_loop_cycle [OF ok, of P h res] have "records_ok s'" by simp
    with GoCycle ok True l u show ?thesis by (cases g) simp_all
  qed
qed (auto simp: records_ok_AddHost records_ok_DelHost records_ok_Stop GetNextIP_snd
       records_ok_GetNextIPWithIdx GetIPs_def GetIPsStr_def Dump_def DumpPrefix_def
       loop_start_def split: option.splits prod.splits gstate.splits)

lemma records_ok_run:
  "records_ok (service y) \<Longrightarrow> list_all whole evs \<Longrightarrow> records_ok (service (run P evs y))"
  by (induction evs arbitrary: y) (simp_all add: records_ok_exec)

lemma records_ok_uninterrupted:
  "list_all whole evs \<Longrightarrow> records_ok (service (run P evs (boot t)))"
  by (rule records_ok_run) (simp_all add: boot_def records_ok_New)

lemma uninterrupted_record:
  assumes "list_all whole evs"
    "Mapping.lookup (hosts (service (run P evs (boot t)))) h = Some r"
  shows "cursor_ok r" "length (ipv4 r) = length (ip4 r)" "length (ipv6 r) = length (ip6 r)"
  using records_ok_uninterrupted [OF assms(1), of P t] assms(2) by (auto simp: records_ok_def)

subsection \<open>The cursor under every schedule\<close>

lemma smod_nonneg': "0 \<le> (a::int) \<Longrightarrow> 0 \<le> a smod b"
  by (cases "b = 0") (simp_all add: signed_modulo_int_def sgn_if)

lemma idx_nonneg_New: "idx_nonneg (New t)"
  by (simp add: idx_nonneg_def New_def)

lemma idx_nonneg_DelHost: "idx_nonneg s \<Longrightarrow> idx_nonneg (DelHost h s)"
  by (auto simp: idx_nonneg_def DelHost_def Mapping.lookup_delete split: if_splits)
     (metis lookup_delete lookup_delete_neq option.distinct(1))

lemma idx_nonneg_Stop: "idx_nonneg (Stop s)"
  by (simp add: idx_nonneg_def Stop_def)

lemma idx_nonneg_update:
  assumes "idx_nonneg s" "0 \<le> idx r'"
  shows "idx_nonneg (s\<lparr>hosts := Mapping.update h r' (hosts s)\<rparr>)"
  using assms by (auto simp: idx_nonneg_def Mapping.lookup_update' split: if_splits)

lemma idx_nonneg_log [simp]: "idx_nonneg (s\<lparr>log := l\<rparr>) = idx_nonneg s"
  by (simp add: idx_nonneg_def)

lemma idx_nonneg_lookup: "idx_nonneg s \<Longrightarrow> Mapping.lookup (hosts s) h = Some r \<Longrightarrow> 0 \<le> idx r"
  by (simp add: idx_nonneg_def)

lemma idx_nonneg_GetNextIPWithIdx:
  assumes "idx_nonneg s"
  shows "idx_nonneg (snd (GetNextIPWithIdx h s))"
proof (cases "Mapping.lookup (hosts s) h")
  case None
  then show ?thesis using assms by (simp add: GetNextIPWithIdx_def)
next
  case (Some r)
  from idx_nonneg_lookup [OF assms Some] have "0 \<le> (idx r + 1) smod int (length (ip4 r))"
    by (intro smod_nonneg') simp
  with Some assms show ?thesis
    by (simp add: GetNextIPWithIdx_def Let_def idx_nonneg_update)
qed

lemma write_stmt_nonneg: "0 \<le> idx r \<Longrightarrow> 0 \<le> idx (write_stmt pc a b c d r)"
  by (simp add: write_stmt_def)

lemma idx_nonneg_updateHostIPs:
  assumes "idx_nonneg s"
  shows "idx_nonneg (snd (updateHostIPs P h sip s))"
proof (cases "Mapping.lookup (hosts s) h")
  case None
  then show ?thesis using assms by (simp add: updateHostIPs_absent)
next
  case (Some r)
  from idx_nonneg_lookup [OF assms Some] have "0 \<le> idx (installed P sip r)"
    by (simp add: installed_def)
  with assms show ?thesis
    by (simp add: updateHostIPs_present [OF Some] idx_nonneg_update)
qed

lemma idx_nonneg_loop_cycle:
  assumes "idx_nonneg s"
  shows "idx_nonneg (snd (loop_cycle P h res s))"
proof (cases res)
  case (Inl err)
  then show ?thesis using assms by (simp add: loop_cycle_def)
next
  case (Inr addrs)
  obtain ok s' where u: "updateHostIPs P h addrs s = (ok, s')"
    by (cases "updateHostIPs P h addrs s")
  with idx_nonneg_updateHostIPs [OF assms, of P h addrs] have "idx_nonneg s'" by simp
  with Inr u show ?thesis by (simp add: loop_cycle_def)
qed

lemma idx_nonneg_AddHost: "idx_nonneg (service y) \<Longrightarrow> idx_nonneg (service (AddHost h y))"
  using idx_nonneg_update [of "service y" ips_zero h]
  by (auto simp: AddHost_def ips_zero_def split: option.splits)

lemma idx_nonneg_go_lookup:
  "idx_nonneg (service y) \<Longrightarrow> idx_nonneg (service (go_lookup P n h res y))"
  using idx_nonneg_loop_cycle [of "service y" P h]
  by (auto simp: go_lookup_def split: sum.splits option.splits prod.splits)

lemma idx_nonneg_go_write:
  assumes "idx_nonneg (service y)"
  shows "idx_nonneg (service (go_write n h tgt pc a b c d y))"
  using assms idx_nonneg_lookup [OF assms, of h]
  by (auto simp: go_write_def Let_def idx_nonneg_update write_stmt_nonneg
      split: option.splits)

lemma idx_nonneg_next_begin:
  "idx_nonneg (service y) \<Longrightarrow> idx_nonneg (service (next_begin h y))"
  by (simp add: next_begin_def split: option.splits)

lemma idx_nonneg_next_end:
  assumes "idx_nonneg (service y)"
  shows "idx_nonneg (service (snd (next_end y)))"
  using assms idx_nonneg_lookup [OF assms]
  by (auto simp: next_end_def Let_def idx_nonneg_update smod_nonneg'
      split: option.splits prod.splits)

lemma idx_nonneg_exec: "idx_nonneg (service y) \<Longrightarrow> idx_nonneg (service (exec P e y))"
proof (cases e)
  case (GoCycle n res)
  assume ok: "idx_nonneg (service y)"
  show ?thesis
  proof (cases "n < length (loops y)")
    case False
    with GoCycle ok show ?thesis by simp
  next
    case True
    obtain h g where l: "loops y ! n = (h, g)" by (cases "loops y ! n")
    obtain c s' where u: "loop_cycle P h res (service y) = (c, s')"
      by (cases "loop_cycle P h res (service y)")
    with idx_nonneg_loop_cycle [OF ok, of P h res] have "idx_nonneg s'" by simp
    with GoCycle ok True l u show ?thesis by (cases g) simp_all
  qed
qed (auto simp: idx_nonneg_AddHost idx_nonneg_DelHost idx_nonneg_Stop GetNextIP_snd
       idx_nonneg_GetNextIPWithIdx GetIPs_def GetIPsStr_def Dump_def DumpPrefix_def
       loop_start_def idx_nonneg_go_lookup idx_nonneg_go_write idx_nonneg_next_begin
       idx_nonneg_next_end split: option.splits prod.splits gstate.splits)

lemma idx_nonneg_run: "idx_nonneg (service y) \<Longrightarrow> idx_nonneg (service (run P evs y))"
  by (induction evs arbitrary: y) (simp_all add: idx_nonneg_exec)

lemma reachable_idx_nonneg:
  assumes "Mapping.lookup (hosts (service (run P evs (boot t)))) h = Some r"
  shows "0 \<le> idx r"
proof -
  have "idx_nonneg (service (run P evs (boot t)))"
    by (rule idx_nonneg_run) (simp add: boot_def idx_nonneg_New)
  then show ?thesis using assms by (rule idx_nonneg_lookup)
qed


subsection \<open>Reachable states\<close>

lemma GetNextIPWithIdx_no_panic:
  "fst (GetNextIPWithIdx h (service (run P evs (boot t)))) \<noteq> Inl IndexOutOfRange"
proof (cases "Mapping.lookup (hosts (service (run P evs (boot t)))) h")
  case None
  then show ?thesis by (simp add: GetNextIPWithIdx_def)
next
  case (Some r)
  show ?thesis
  proof (cases "ip4 r = []")
    case True
    with Some show ?thesis by (simp add: GetNextIPWithIdx_def)
  next
    case False
    from reachable_idx_nonneg [OF Some] have "0 \<le> idx r" .
    from GetNextIPWithIdx_present [OF Some False this] show ?thesis by simp
  qed
qed

subsection \<open>What a refresh installs\<close>

lemma installed_lookup:
  assumes "Mapping.lookup (hosts s) h = Some r"
  shows "Mapping.lookup (hosts (snd (updateHostIPs P h sip s))) h = Some (installed P sip r)"
  by (simp add: updateHostIPs_present [OF assms])

lemma set_partition_v4:
  "set (sort (partition_v4 P sip)) = {x \<in> set sip. P x \<noteq> None \<and> CHR '':'' \<notin> set x}"
  by (auto simp: partition_v4_def)

lemma set_partition_v6:
  "set (sort (partition_v6 P sip)) = {x \<in> set sip. P x \<noteq> None \<and> CHR '':'' \<in> set x}"
  by (auto simp: partition_v6_def)

subsection \<open>Registration\<close>

lemma AddHost_present: "Mapping.lookup (hosts (service y)) h \<noteq> None \<Longrightarrow> AddHost h y = y"
  by (auto simp: AddHost_def split: option.splits)

lemma AddHost_absent:
  "Mapping.lookup (hosts (service y)) h = None \<Longrightarrow>
     AddHost h y =
       y\<lparr>service := (service y)\<lparr>hosts := Mapping.update h ips_zero (hosts (service y))\<rparr>,
         loops := loops y @ [(h, Spawned)]\<rparr>"
  by (simp add: AddHost_def)

lemma AddHost_twice: "AddHost h (AddHost h y) = AddHost h y"
proof (cases "Mapping.lookup (hosts (service y)) h")
  case None
  then have "Mapping.lookup (hosts (service (AddHost h y))) h \<noteq> None"
    by (simp add: AddHost_absent)
  then show ?thesis by (rule AddHost_present)
next
  case (Some r)
  then show ?thesis by (simp add: AddHost_present)
qed

subsection \<open>Goroutines that have returned\<close>

lemma exec_keeps_Exited:
  assumes "n < length (loops y)" "snd (loops y ! n) = Exited"
  shows "n < length (loops (exec P e y)) \<and> snd (loops (exec P e y) ! n) = Exited"
proof (cases e)
  case (CallAddHost h)
  with assms show ?thesis
    by (auto simp: AddHost_def nth_append split: option.splits)
next
  case (GoStart m)
  with assms show ?thesis
    by (cases "m = n") (auto split: prod.splits gstate.splits)
next
  case (GoCycle m res)
  with assms show ?thesis
    by (cases "m = n") (auto split: prod.splits gstate.splits)
next
  case (GoLookup m res)
  with assms show ?thesis
    by (cases "m = n")
       (auto simp: go_lookup_def split: prod.splits gstate.splits sum.splits option.splits)
next
  case (GoWrite m)
  with assms show ?thesis
    by (cases "m = n")
       (auto simp: go_write_def Let_def split: prod.splits gstate.splits option.splits)
next
  case (NextBegin h)
  with assms show ?thesis by (auto simp: next_begin_def split: option.splits)
next
  case NextEnd
  with assms show ?thesis
    by (auto simp: next_end_def Let_def split: option.splits prod.splits)
qed (use assms in auto)

lemma exec_step_of_Exited:
  assumes "n < length (loops y)" "snd (loops y ! n) = Exited" "step_of n e"
  shows "exec P e y = y"
  using assms by (cases e) (auto split: prod.splits gstate.splits)

lemma run_after_Exited:
  assumes "n < length (loops y)" "snd (loops y ! n) = Exited"
  shows "n < length (loops (run P evs y)) \<and> snd (loops (run P evs y) ! n) = Exited
         \<and> run P evs y = run P (filter (\<lambda>e. \<not> step_of n e) evs) y"
  using assms
proof (induction evs arbitrary: y)
  case Nil
  then show ?case by simp
next
  case (Cons e evs)
  define y' where "y' = (if call y \<noteq> None \<and> takes_mu e then y else exec P e y)"
  from exec_keeps_Exited [OF Cons.prems, of P e] Cons.prems
  have k: "n < length (loops y')" "snd (loops y' ! n) = Exited"
    by (simp_all add: y'_def)
  have e1: "run P (e # evs) y = run P evs y'" by (simp add: y'_def)
  show ?case
  proof (cases "step_of n e")
    case True
    from exec_step_of_Exited [OF Cons.prems True] have same: "y' = y" by (simp add: y'_def)
    from Cons.IH [OF Cons.prems] have
      i1: "n < length (loops (run P evs y))" and
      i2: "snd (loops (run P evs y) ! n) = Exited" and
      i3: "run P evs y = run P (filter (\<lambda>e. \<not> step_of n e) evs) y"
      by blast+
    have e2: "filter (\<lambda>e. \<not> step_of n e) (e # evs) = filter (\<lambda>e. \<not> step_of n e) evs"
      using True by simp
    show ?thesis unfolding e1 e2 same using i1 i2 i3 by blast
  next
    case False
    from Cons.IH [OF k] have
      i1: "n < length (loops (run P evs y'))" and
      i2: "snd (loops (run P evs y') ! n) = Exited" and
      i3: "run P evs y' = run P (filter (\<lambda>e. \<not> step_of n e) evs) y'"
      by blast+
    have e2: "run P (filter (\<lambda>e. \<not> step_of n e) (e # evs)) y
        = run P (filter (\<lambda>e. \<not> step_of n e) evs) y'"
      using False by (simp add: y'_def)
    show ?thesis unfolding e1 e2 using i1 i2 i3 by blast
  qed
qed

lemma cycle_exit_iff:
  assumes "n < length (loops y)" "loops y ! n = (h, Looping)"
  shows "snd (loops (exec P (GoCycle n (Inr sip)) y) ! n) = Exited
           \<longleftrightarrow> Mapping.lookup (hosts (service y)) h = None"
proof (cases "Mapping.lookup (hosts (service y)) h")
  case None
  with assms show ?thesis
    by (simp add: loop_cycle_def updateHostIPs_absent)
next
  case (Some r)
  with assms show ?thesis
    by (simp add: loop_cycle_def updateHostIPs_present [OF Some])
qed

lemma cycle_exit_state:
  assumes "n < length (loops y)" "loops y ! n = (h, Looping)"
    "Mapping.lookup (hosts (service y)) h = None"
  shows "service (exec P (GoCycle n (Inr sip)) y) =
           (service y)\<lparr>log := log (service y) @
              [(Error, [AStr (tag (service y)), AStr ''stop resolver for:'', AStr h])]\<rparr>"
  using assms by (simp add: loop_cycle_def updateHostIPs_absent)

text \<open>
  The loop ends only when the host is absent at the moment of the write. After the first
  run, if the host is removed and registered again before its goroutine's next
  iteration, that goroutine finds the new record and stays in its loop beside the newly
  spawned one.
\<close>

lemma reregistered_host_keeps_old_loop:
  "loops (run ParseIP_sample
      (demo_events @ [CallDelHost ''a'', CallAddHost ''a'', GoCycle 0 (Inr [''10.0.0.1''])])
      (boot ''t'')) = [(''a'', Looping), (''a'', Spawned)]"
  by code_simp

subsection \<open>The state a query leaves\<close>

lemma GetNextIPWithIdx_snd:
  "snd (GetNextIPWithIdx h s) =
     (case Mapping.lookup (hosts s) h of
        None \<Rightarrow> s
      | Some r \<Rightarrow>
          if ip4 r = [] then s
          else s\<lparr>hosts := Mapping.update h
                 (r\<lparr>idx := (idx r + 1) smod int (length (ip4 r))\<rparr>) (hosts s)\<rparr>)"
  by (simp add: GetNextIPWithIdx_def Let_def split: option.splits)

lemma keys_update_present:
  assumes "Mapping.lookup m k = Some v"
  shows "insert k (Mapping.keys m) = Mapping.keys m"
proof -
  from assms have "k \<in> Mapping.keys m" by (auto simp: keys_dom_lookup)
  then show ?thesis by blast
qed

subsection \<open>Lock operations and field writes\<close>

text \<open>
  The action sequences agree with the functions above: replaying the field writes of
  \<^verbatim>\<open>updateHostIPs\<close> on the host's record gives the record the function installs, and
  likewise for \<^verbatim>\<open>GetNextIPWithIdx\<close>.
\<close>

lemma replay_append: "replay (xs @ ys) r = replay ys (replay xs r)"
  by (induction xs arbitrary: r) simp_all

lemma updateHostIPs_actions_replay:
  assumes "Mapping.lookup (hosts s) h = Some r"
  shows "replay (updateHostIPs_actions P h sip s) r = installed P sip r"
  using assms
  by (cases r) (simp add: updateHostIPs_actions_def parse_loop_eq installed_def)

lemma updateHostIPs_actions_unguarded:
  "unguarded Unheld (updateHostIPs_actions P h sip s) =
     filter is_write (updateHostIPs_actions P h sip s)"
proof (cases "Mapping.lookup (hosts s) h")
  case None
  then show ?thesis by (simp add: updateHostIPs_actions_def)
next
  case (Some r)
  then show ?thesis
    by (simp add: updateHostIPs_actions_def parse_loop_eq)
qed

lemma updateHostIPs_actions_no_Lock: "Lock \<notin> set (updateHostIPs_actions P h sip s)"
  by (simp add: updateHostIPs_actions_def parse_loop_eq split: option.splits)

lemma GetNextIPWithIdx_actions_guarded: "unguarded Unheld (GetNextIPWithIdx_actions h s) = []"
  by (simp add: GetNextIPWithIdx_actions_def split: option.splits)

lemma GetNextIPWithIdx_actions_replay:
  assumes "Mapping.lookup (hosts s) h = Some r"
  shows "Mapping.lookup (hosts (snd (GetNextIPWithIdx h s))) h
           = Some (replay (GetNextIPWithIdx_actions h s) r)"
  using assms by (simp add: GetNextIPWithIdx_actions_def GetNextIPWithIdx_def Let_def)

subsection \<open>Methods and iterations in parts\<close>

text \<open>
  Run with nothing in between, the two parts of \<^verbatim>\<open>GetNextIPWithIdx\<close> are the method,
  and the six parts of an iteration are the iteration.
\<close>

lemma next_begin_end:
  assumes "call y = None"
  shows "service (snd (next_end (next_begin h y))) = snd (GetNextIPWithIdx h (service y))"
    and "call (snd (next_end (next_begin h y))) = None"
  using assms
  by (auto simp: next_begin_def next_end_def GetNextIPWithIdx_def Let_def split: option.splits)

lemma last_spawned_list_update:
  "n < length ls \<Longrightarrow> fst (ls ! n) = h' \<Longrightarrow> last_spawned h (ls[n := (h', g)]) = last_spawned h ls"
proof (induction ls arbitrary: n)
  case Nil
  then show ?case by simp
next
  case (Cons x xs)
  then show ?case by (cases n) (auto split: option.splits)
qed

lemma write_stmts_installed:
  "write_stmt 4 (sort (partition_v4 P sip)) (sort (partition_v6 P sip))
      (map (the \<circ> P) (partition_v4 P sip)) (map (the \<circ> P) (partition_v6 P sip))
     (write_stmt 3 a b c (map (the \<circ> P) (partition_v6 P sip))
       (write_stmt 2 a b (map (the \<circ> P) (partition_v4 P sip)) d
         (write_stmt 1 a (sort (partition_v6 P sip)) c d
           (write_stmt 0 (sort (partition_v4 P sip)) b c d r)))) = installed P sip r"
  by (cases r) (simp add: write_stmt_def installed_def)

lemma split_iteration:
  assumes "n < length (loops y)" "loops y ! n = (h, Looping)"
  shows "exec P (GoWrite n) (exec P (GoWrite n) (exec P (GoWrite n) (exec P (GoWrite n)
           (exec P (GoWrite n) (exec P (GoLookup n res) y))))) = exec P (GoCycle n res) y"
proof (cases res)
  case (Inl err)
  have "(loops y)[n := (h, Looping)] = loops y"
    using assms by (metis list_update_id)
  with assms Inl show ?thesis by (simp add: go_lookup_def loop_cycle_def)
next
  case (Inr sip)
  show ?thesis
  proof (cases "Mapping.lookup (hosts (service y)) h")
    case None
    with assms Inr show ?thesis
      by (simp add: go_lookup_def loop_cycle_def updateHostIPs_absent)
  next
    case (Some r)
    have ls: "last_spawned h ((loops y)[n := (h, g)]) = last_spawned h (loops y)" for g
      using assms by (simp add: last_spawned_list_update)
    have uu: "Mapping.update k v (Mapping.update k w m) = Mapping.update k v m" for k v w
      and m :: "(string, ips) mapping"
      by (rule mapping_eqI) (simp add: Mapping.lookup_update')
    from assms Inr Some show ?thesis
      by (cases r) (simp add: uu go_lookup_def parse_loop_eq go_write_def Let_def ls loop_cycle_def
          updateHostIPs_present [OF Some] write_stmts_installed installed_def write_stmt_def)
  qed
qed

section \<open>The claims\<close>

text \<open>
  Throughout, a state the program can reach is \<open>run P evs (boot t)\<close>: the service
  created with tag \<open>t\<close> after the events \<open>evs\<close>, for any parser \<open>P\<close> in the place of
  \<^verbatim>\<open>net.ParseIP\<close>.
\<close>

subsection \<open>C1: round robin\<close>



subsection \<open>C2: the cursor is always an index\<close>

text \<open>
  C2 says that after every refresh write and every \<^verbatim>\<open>GetNextIPWithIdx\<close> call the
  cursor is an index of the IPv4 list, or 0 when the list is empty. The refresh writes
  the list and checks the cursor with no lock held, so it can run between the two halves
  of a call that holds the write lock. In the fourth run the caller has read the count 5
  and the refresh has since stored one address and found the cursor 0 in range. The
  call then stores the cursor 1 beside the one address. Both operations are over, no
  lock is held, and the cursor is the length of the list.
\<close>

theorem cursor_out_of_range_after_race:
  "call (run ParseIP_sample race_events (boot ''t'')) = Some (''a'', 5)
   \<and> Mapping.lookup (hosts (service (snd (next_end
         (run ParseIP_sample race_events (boot ''t''))))) ) ''a'' = Some one_record
   \<and> call (snd (next_end (run ParseIP_sample race_events (boot ''t'')))) = None
   \<and> loops (snd (next_end (run ParseIP_sample race_events (boot ''t'')))) = [(''a'', Looping)]
   \<and> idx one_record = 1 \<and> length (ip4 one_record) = 1
   \<and> \<not> cursor_ok one_record"
  by code_simp

text \<open>
  What does hold: as long as no method and no iteration is interrupted, the cursor of
  every record is 0 when the IPv4 list is empty and lies between 0 and the length minus
  one otherwise; and a refresh write, run without interruption, that leaves an IPv4
  list no longer than the cursor was before resets the cursor to 0.
\<close>

lemma cursor_valid_uninterrupted:
  "(list_all whole evs \<and> Mapping.lookup (hosts (service (run P evs (boot t)))) h = Some r \<longrightarrow>
      (if ip4 r = [] then idx r = 0 else 0 \<le> idx r \<and> idx r \<le> int (length (ip4 r)) - 1)
      \<and> length (ipv4 r) = length (ip4 r))
   \<and> (Mapping.lookup (hosts s) h = Some r
        \<and> Mapping.lookup (hosts (snd (updateHostIPs P h sip s))) h = Some r'
        \<and> int (length (ip4 r')) \<le> idx r \<longrightarrow> idx r' = 0)"
proof (intro conjI impI)
  assume "list_all whole evs \<and> Mapping.lookup (hosts (service (run P evs (boot t)))) h = Some r"
  then have w: "list_all whole evs"
    and a: "Mapping.lookup (hosts (service (run P evs (boot t)))) h = Some r"
    by blast+
  from uninterrupted_record(1) [OF w a]
  show "if ip4 r = [] then idx r = 0 else 0 \<le> idx r \<and> idx r \<le> int (length (ip4 r)) - 1"
    by (auto simp: cursor_ok_def split: if_splits)
  from uninterrupted_record(2) [OF w a] show "length (ipv4 r) = length (ip4 r)" .
next
  assume a: "Mapping.lookup (hosts s) h = Some r
        \<and> Mapping.lookup (hosts (snd (updateHostIPs P h sip s))) h = Some r'
        \<and> int (length (ip4 r')) \<le> idx r"
  then have p: "Mapping.lookup (hosts s) h = Some r" by blast
  from a have "Mapping.lookup (hosts (snd (updateHostIPs P h sip s))) h = Some r'" by blast
  then have r': "installed P sip r = r'"
    unfolding updateHostIPs_present [OF p] by simp
  from a have "int (length (ip4 r')) \<le> idx r" by blast
  with r' [symmetric] show "idx r' = 0"
    by (simp add: installed_def)
qed

subsection \<open>C3: which lists are sorted\<close>




subsection \<open>C4: unknown hosts and empty lists\<close>

text \<open>
  C4 says, beside the results for unknown hosts and empty lists, that no query raises a
  failure. \<^verbatim>\<open>GetNextIPWithIdx\<close> reads the count at line 100 and indexes the slice at
  line 107, and a refresh can replace the slice in between, since it writes with no lock
  held (the defect of C9). In the fourth run the caller has read the count 5, the record
  now has one address and the cursor 0; the call stores the cursor 1 and indexes the
  one-element slice at 1, which panics.
\<close>

theorem call_panics_after_race:
  "call (run ParseIP_sample race_events (boot ''t'')) = Some (''a'', 5)
   \<and> Mapping.lookup (hosts (service (run ParseIP_sample race_events (boot ''t'')))) ''a''
       = Some (one_record\<lparr>idx := 0\<rparr>)
   \<and> fst (next_end (run ParseIP_sample race_events (boot ''t''))) = Some (Inl IndexOutOfRange)"
  by code_simp

text \<open>
  What does hold. For a host name that is not a key of the registry (a new service has
  none, and \<^verbatim>\<open>DelHost\<close> and \<^verbatim>\<open>Stop\<close> remove it), \<^verbatim>\<open>GetNextIPWithIdx\<close> returns the
  empty string and -1, \<^verbatim>\<open>GetNextIP\<close> the empty string, \<^verbatim>\<open>GetIPs\<close> and \<^verbatim>\<open>GetIPsStr\<close>
  two nil slices, and the state is unchanged. \<^verbatim>\<open>GetNextIPWithIdx\<close> also returns the
  empty string and -1 for a registered host with no IPv4 address. A call that runs from
  line 95 to line 107 with nothing in between does not panic, in whatever state the
  program has reached.
\<close>

lemma unknown_host_sentinels:
  "(Mapping.lookup (hosts s) h = None \<longrightarrow>
      GetNextIPWithIdx h s = (Inr ('''', - 1), s) \<and> GetNextIP h s = (Inr '''', s)
      \<and> GetIPs h s = (([], []), s) \<and> GetIPsStr h s = (([], []), s))
   \<and> (Mapping.lookup (hosts s) h = Some r \<and> ip4 r = [] \<longrightarrow>
        GetNextIPWithIdx h s = (Inr ('''', - 1), s))
   \<and> Mapping.lookup (hosts (New t)) h = None
   \<and> Mapping.lookup (hosts (DelHost h s)) h = None
   \<and> Mapping.lookup (hosts (Stop s)) h = None
   \<and> fst (GetNextIPWithIdx h (service (run P evs (boot t)))) \<noteq> Inl IndexOutOfRange
   \<and> fst (GetNextIP h (service (run P evs (boot t)))) \<noteq> Inl IndexOutOfRange"
proof -
  have "fst (GetNextIP h (service (run P evs (boot t)))) \<noteq> Inl IndexOutOfRange"
    using GetNextIPWithIdx_no_panic [of h P evs t]
    by (auto simp: GetNextIP_def split: prod.splits sum.splits)
  then show ?thesis
    using GetNextIPWithIdx_no_panic [of h P evs t]
    by (simp add: GetNextIPWithIdx_def GetNextIP_def GetIPs_def GetIPsStr_def New_def
        DelHost_def Stop_def)
qed

subsection \<open>C5: a failed lookup\<close>

text \<open>
  C5. An iteration of the refresh loop whose lookup returned an error goes on to the next
  iteration, appends one error entry to the log and leaves the whole registry map as it
  was: every record keeps its lists and its cursor, and every query answers as before.
  The goroutine stays in its loop.
\<close>

theorem lookup_failure_keeps_cache:
  "loop_cycle P h (Inl err) s =
     (True, s\<lparr>log := log s @
        [(Error, [AStr (tag s), AStr ''resolve'', AStr h, AStr ''failed:'', AStr err])]\<rparr>)
   \<and> hosts (snd (loop_cycle P h (Inl err) s)) = hosts s
   \<and> fst (GetIPs h' (snd (loop_cycle P h (Inl err) s))) = fst (GetIPs h' s)
   \<and> fst (GetIPsStr h' (snd (loop_cycle P h (Inl err) s))) = fst (GetIPsStr h' s)
   \<and> fst (GetNextIPWithIdx h' (snd (loop_cycle P h (Inl err) s))) = fst (GetNextIPWithIdx h' s)
   \<and> hosts (service (exec P (GoCycle n (Inl err)) y)) = hosts (service y)
   \<and> loops (exec P (GoCycle n (Inl err)) y) = loops y"
proof -
  have "loops (exec P (GoCycle n (Inl err)) y) = loops y"
    by (auto simp: loop_cycle_def list_update_same_conv split: prod.splits gstate.splits)
  moreover have "hosts (service (exec P (GoCycle n (Inl err)) y)) = hosts (service y)"
    by (auto simp: loop_cycle_def split: prod.splits gstate.splits)
  ultimately show ?thesis
    by (simp add: loop_cycle_def GetIPs_def GetIPsStr_def GetNextIPWithIdx_def Let_def
        split: option.splits)
qed

theorem lookup_failure_keeps_cache_witness:
  "Mapping.lookup (hosts (service (exec ParseIP_sample (GoCycle 0 (Inl ''no such host''))
       (run ParseIP_sample demo_events (boot ''t''))))) ''a'' = Some demo_record
   \<and> loops (exec ParseIP_sample (GoCycle 0 (Inl ''no such host''))
       (run ParseIP_sample demo_events (boot ''t''))) = [(''a'', Looping)]"
proof -
  have h1: "Mapping.lookup (hosts (service (run ParseIP_sample demo_events (boot ''t'')))) ''a''
      = Some demo_record"
    by code_simp
  have h2: "loops (run ParseIP_sample demo_events (boot ''t'')) = [(''a'', Looping)]"
    by code_simp
  note inst = lookup_failure_keeps_cache [of ParseIP_sample _ "''no such host''" _ _ 0
      "run ParseIP_sample demo_events (boot ''t'')"]
  from inst h1 have c1: "Mapping.lookup (hosts (service (exec ParseIP_sample
       (GoCycle 0 (Inl ''no such host'')) (run ParseIP_sample demo_events (boot ''t''))))) ''a''
       = Some demo_record"
    by simp
  from inst h2 have c2: "loops (exec ParseIP_sample (GoCycle 0 (Inl ''no such host''))
       (run ParseIP_sample demo_events (boot ''t''))) = [(''a'', Looping)]"
    by simp
  from c1 c2 show ?thesis by blast
qed

subsection \<open>C6: what a successful refresh installs\<close>

text \<open>
  C6. A refresh write for a registered host succeeds and leaves a record whose IPv4
  strings are the lookup's strings that parse and contain no colon, whose IPv6 strings
  are those that parse and contain a colon, each list sorted, and whose binary lists are
  the parses of the same strings; a string that does not parse is in neither list.
  Resolving \<^verbatim>\<open>["10.0.0.1","10.0.0.2","::1"]\<close> gives the IPv4 strings
  \<^verbatim>\<open>["10.0.0.1","10.0.0.2"]\<close> and the IPv6 strings \<^verbatim>\<open>["::1"]\<close>, and
  \<^verbatim>\<open>not-an-ip\<close> is dropped from a batch while its valid entries are kept.
\<close>

theorem refresh_partitions_and_sorts:
  "(Mapping.lookup (hosts s) h = Some r \<longrightarrow>
      fst (updateHostIPs P h sip s) = True
      \<and> (\<exists>r'. Mapping.lookup (hosts (snd (updateHostIPs P h sip s))) h = Some r'
           \<and> ip4 r' = sort (partition_v4 P sip) \<and> ip6 r' = sort (partition_v6 P sip)
           \<and> ipv4 r' = map (the \<circ> P) (partition_v4 P sip)
           \<and> ipv6 r' = map (the \<circ> P) (partition_v6 P sip)
           \<and> sorted (ip4 r') \<and> sorted (ip6 r')
           \<and> set (ip4 r') = {x \<in> set sip. P x \<noteq> None \<and> CHR '':'' \<notin> set x}
           \<and> set (ip6 r') = {x \<in> set sip. P x \<noteq> None \<and> CHR '':'' \<in> set x}))
   \<and> (Mapping.lookup (hosts s) h = Some r
        \<and> P ''10.0.0.1'' \<noteq> None \<and> P ''10.0.0.2'' \<noteq> None \<and> P ''::1'' \<noteq> None \<longrightarrow>
        fst (GetIPsStr h (snd (updateHostIPs P h [''10.0.0.1'', ''10.0.0.2'', ''::1''] s))) =
          ([''10.0.0.1'', ''10.0.0.2''], [''::1'']))
   \<and> (Mapping.lookup (hosts s) h = Some r
        \<and> P ''not-an-ip'' = None \<and> P ''10.0.0.2'' \<noteq> None \<and> P ''10.0.0.1'' \<noteq> None \<longrightarrow>
        fst (GetIPsStr h (snd (updateHostIPs P h [''10.0.0.2'', ''not-an-ip'', ''10.0.0.1''] s))) =
          ([''10.0.0.1'', ''10.0.0.2''], []))"
proof (intro conjI impI)
  assume a: "Mapping.lookup (hosts s) h = Some r"
  show "fst (updateHostIPs P h sip s) = True"
    by (simp add: updateHostIPs_present [OF a])
  show "\<exists>r'. Mapping.lookup (hosts (snd (updateHostIPs P h sip s))) h = Some r'
           \<and> ip4 r' = sort (partition_v4 P sip) \<and> ip6 r' = sort (partition_v6 P sip)
           \<and> ipv4 r' = map (the \<circ> P) (partition_v4 P sip)
           \<and> ipv6 r' = map (the \<circ> P) (partition_v6 P sip)
           \<and> sorted (ip4 r') \<and> sorted (ip6 r')
           \<and> set (ip4 r') = {x \<in> set sip. P x \<noteq> None \<and> CHR '':'' \<notin> set x}
           \<and> set (ip6 r') = {x \<in> set sip. P x \<noteq> None \<and> CHR '':'' \<in> set x}"
    using installed_lookup [OF a, of P sip] set_partition_v4 [of P sip] set_partition_v6 [of P sip]
    by (simp add: installed_def)
next
  assume a: "Mapping.lookup (hosts s) h = Some r
        \<and> P ''10.0.0.1'' \<noteq> None \<and> P ''10.0.0.2'' \<noteq> None \<and> P ''::1'' \<noteq> None"
  then have p: "Mapping.lookup (hosts s) h = Some r" by blast
  from a show "fst (GetIPsStr h (snd (updateHostIPs P h [''10.0.0.1'', ''10.0.0.2'', ''::1''] s))) =
          ([''10.0.0.1'', ''10.0.0.2''], [''::1''])"
    by (simp add: GetIPsStr_def installed_lookup [OF p] installed_def partition_v4_def
        partition_v6_def)
next
  assume a: "Mapping.lookup (hosts s) h = Some r
        \<and> P ''not-an-ip'' = None \<and> P ''10.0.0.2'' \<noteq> None \<and> P ''10.0.0.1'' \<noteq> None"
  then have p: "Mapping.lookup (hosts s) h = Some r" by blast
  from a show "fst (GetIPsStr h (snd (updateHostIPs P h [''10.0.0.2'', ''not-an-ip'', ''10.0.0.1''] s))) =
          ([''10.0.0.1'', ''10.0.0.2''], [])"
    by (simp add: GetIPsStr_def installed_lookup [OF p] installed_def partition_v4_def
        partition_v6_def)
qed

theorem refresh_partitions_and_sorts_witness:
  "Mapping.lookup (hosts (service (run ParseIP_sample demo_events (boot ''t'')))) ''a''
     = Some demo_record
   \<and> ParseIP_sample ''10.0.0.1'' \<noteq> None \<and> ParseIP_sample ''10.0.0.2'' \<noteq> None
   \<and> ParseIP_sample ''::1'' \<noteq> None \<and> ParseIP_sample ''not-an-ip'' = None
   \<and> fst (GetIPsStr ''a'' (snd (updateHostIPs ParseIP_sample ''a''
          [''10.0.0.1'', ''10.0.0.2'', ''::1'']
          (service (run ParseIP_sample demo_events (boot ''t'')))))) =
        ([''10.0.0.1'', ''10.0.0.2''], [''::1''])
   \<and> fst (GetIPsStr ''a'' (snd (updateHostIPs ParseIP_sample ''a''
          [''10.0.0.2'', ''not-an-ip'', ''10.0.0.1'']
          (service (run ParseIP_sample demo_events (boot ''t'')))))) =
        ([''10.0.0.1'', ''10.0.0.2''], [])"
proof -
  have h1: "Mapping.lookup (hosts (service (run ParseIP_sample demo_events (boot ''t'')))) ''a''
     = Some demo_record"
    by code_simp
  have h2: "ParseIP_sample ''10.0.0.1'' \<noteq> None" "ParseIP_sample ''10.0.0.2'' \<noteq> None"
    "ParseIP_sample ''::1'' \<noteq> None" "ParseIP_sample ''not-an-ip'' = None"
    by (simp_all add: ParseIP_sample_def)
  note inst = refresh_partitions_and_sorts [of
      "service (run ParseIP_sample demo_events (boot ''t''))" "''a''" demo_record ParseIP_sample]
  from inst h1 h2 have c1: "fst (GetIPsStr ''a'' (snd (updateHostIPs ParseIP_sample ''a''
          [''10.0.0.1'', ''10.0.0.2'', ''::1'']
          (service (run ParseIP_sample demo_events (boot ''t'')))))) =
        ([''10.0.0.1'', ''10.0.0.2''], [''::1''])"
    by blast
  from inst h1 h2 have c2: "fst (GetIPsStr ''a'' (snd (updateHostIPs ParseIP_sample ''a''
          [''10.0.0.2'', ''not-an-ip'', ''10.0.0.1'']
          (service (run ParseIP_sample demo_events (boot ''t'')))))) =
        ([''10.0.0.1'', ''10.0.0.2''], [])"
    by blast
  from h1 h2 c1 c2 show ?thesis by blast
qed

subsection \<open>C7: registering twice\<close>

text \<open>
  C7. \<^verbatim>\<open>AddHost\<close> for a host that is a key of the registry changes nothing: the
  records, the log and the list of goroutines are as before. For a host that is not a
  key it stores the empty record and spawns exactly one goroutine. Calling it twice is
  the same as calling it once.
\<close>

theorem AddHost_idempotent:
  "(Mapping.lookup (hosts (service y)) h \<noteq> None \<longrightarrow> AddHost h y = y)
   \<and> (Mapping.lookup (hosts (service y)) h = None \<longrightarrow>
        AddHost h y =
          y\<lparr>service := (service y)\<lparr>hosts := Mapping.update h ips_zero (hosts (service y))\<rparr>,
            loops := loops y @ [(h, Spawned)]\<rparr>
        \<and> length (loops (AddHost h y)) = length (loops y) + 1)
   \<and> AddHost h (AddHost h y) = AddHost h y"
  by (simp add: AddHost_present AddHost_absent AddHost_twice)

theorem AddHost_idempotent_witness:
  "Mapping.lookup (hosts (service (run ParseIP_sample demo_events (boot ''t'')))) ''a'' \<noteq> None
   \<and> AddHost ''a'' (run ParseIP_sample demo_events (boot ''t''))
       = run ParseIP_sample demo_events (boot ''t'')
   \<and> Mapping.lookup (hosts (service (run ParseIP_sample demo_events (boot ''t'')))) ''b'' = None
   \<and> length (loops (run ParseIP_sample demo_events (boot ''t''))) = 1
   \<and> length (loops (AddHost ''b'' (run ParseIP_sample demo_events (boot ''t'')))) = 2"
proof -
  have h1: "Mapping.lookup (hosts (service (run ParseIP_sample demo_events (boot ''t'')))) ''a''
      \<noteq> None"
    by code_simp
  have h2: "Mapping.lookup (hosts (service (run ParseIP_sample demo_events (boot ''t'')))) ''b''
      = None"
    by code_simp
  have h3: "length (loops (run ParseIP_sample demo_events (boot ''t''))) = 1"
    by code_simp
  from AddHost_idempotent [of "run ParseIP_sample demo_events (boot ''t'')" "''a''"] h1
  have c1: "AddHost ''a'' (run ParseIP_sample demo_events (boot ''t''))
       = run ParseIP_sample demo_events (boot ''t'')"
    by blast
  from AddHost_idempotent [of "run ParseIP_sample demo_events (boot ''t'')" "''b''"] h2 h3
  have c2: "length (loops (AddHost ''b'' (run ParseIP_sample demo_events (boot ''t'')))) = 2"
    by simp
  from h1 h2 h3 c1 c2 show ?thesis by blast
qed

subsection \<open>C8: the loop of a removed host\<close>

text \<open>
  C8. \<^verbatim>\<open>updateHostIPs\<close> returns false exactly when the host is not a key of the
  registry, and then leaves the state as it was. An iteration of a goroutine's loop with
  a successful lookup ends the goroutine exactly when its host is not a key; it then
  only logs one entry. A goroutine that has returned stays so whatever happens later,
  and the later steps scheduled for it change nothing: the run is the same without them.
\<close>

theorem removed_host_stops_loop:
  "(fst (updateHostIPs P h sip s) = False \<longleftrightarrow> Mapping.lookup (hosts s) h = None)
   \<and> (Mapping.lookup (hosts s) h = None \<longrightarrow> updateHostIPs P h sip s = (False, s))
   \<and> (n < length (loops y) \<and> loops y ! n = (h, Looping) \<longrightarrow>
        (snd (loops (exec P (GoCycle n (Inr sip)) y) ! n) = Exited
           \<longleftrightarrow> Mapping.lookup (hosts (service y)) h = None)
        \<and> (Mapping.lookup (hosts (service y)) h = None \<longrightarrow>
             service (exec P (GoCycle n (Inr sip)) y) =
               (service y)\<lparr>log := log (service y) @
                 [(Error, [AStr (tag (service y)), AStr ''stop resolver for:'', AStr h])]\<rparr>))
   \<and> (n < length (loops y) \<and> snd (loops y ! n) = Exited \<longrightarrow>
        n < length (loops (run P evs y)) \<and> snd (loops (run P evs y) ! n) = Exited
        \<and> run P evs y = run P (filter (\<lambda>e. \<not> step_of n e) evs) y)"
proof (intro conjI impI)
  show "fst (updateHostIPs P h sip s) = False \<longleftrightarrow> Mapping.lookup (hosts s) h = None"
    by (cases "Mapping.lookup (hosts s) h")
       (simp_all add: updateHostIPs_absent updateHostIPs_present)
next
  assume "Mapping.lookup (hosts s) h = None"
  then show "updateHostIPs P h sip s = (False, s)" by (rule updateHostIPs_absent)
next
  assume a: "n < length (loops y) \<and> loops y ! n = (h, Looping)"
  then show "snd (loops (exec P (GoCycle n (Inr sip)) y) ! n) = Exited
           \<longleftrightarrow> Mapping.lookup (hosts (service y)) h = None"
    using cycle_exit_iff by blast
  assume "Mapping.lookup (hosts (service y)) h = None"
  with a show "service (exec P (GoCycle n (Inr sip)) y) =
               (service y)\<lparr>log := log (service y) @
                 [(Error, [AStr (tag (service y)), AStr ''stop resolver for:'', AStr h])]\<rparr>"
    using cycle_exit_state by blast
next
  assume a: "n < length (loops y) \<and> snd (loops y ! n) = Exited"
  then have *: "n < length (loops (run P evs y)) \<and> snd (loops (run P evs y) ! n) = Exited
         \<and> run P evs y = run P (filter (\<lambda>e. \<not> step_of n e) evs) y"
    using run_after_Exited by blast
  from * show "n < length (loops (run P evs y))" by blast
  from * show "snd (loops (run P evs y) ! n) = Exited" by blast
  from * show "run P evs y = run P (filter (\<lambda>e. \<not> step_of n e) evs) y" by blast
qed

theorem removed_host_stops_loop_witness:
  "0 < length (loops removed) \<and> loops removed ! 0 = (''a'', Looping)
   \<and> Mapping.lookup (hosts (service removed)) ''a'' = None
   \<and> updateHostIPs ParseIP_sample ''a'' [''10.0.0.1''] (service removed) = (False, service removed)
   \<and> 0 < length (loops stopped) \<and> snd (loops stopped ! 0) = Exited
   \<and> hosts (service stopped) = hosts (service removed)
   \<and> snd (loops (run ParseIP_sample later_events stopped) ! 0) = Exited
   \<and> run ParseIP_sample later_events stopped =
       run ParseIP_sample [CallAddHost ''a'', GoStart 1, GoCycle 1 (Inr [''10.0.0.3''])] stopped"
proof -
  have h1: "0 < length (loops removed)" by code_simp
  have h2: "loops removed ! 0 = (''a'', Looping)" by code_simp
  have h3: "Mapping.lookup (hosts (service removed)) ''a'' = None" by code_simp
  have h4: "0 < length (loops stopped)" by code_simp
  have f: "filter (\<lambda>e. \<not> step_of 0 e) later_events =
      [CallAddHost ''a'', GoStart 1, GoCycle 1 (Inr [''10.0.0.3''])]"
    by (simp add: later_events_def)
  note inst1 = removed_host_stops_loop [of ParseIP_sample "''a''" "[''10.0.0.1'']"
      "service removed" 0 removed later_events]
  from inst1 h3 have c1:
    "updateHostIPs ParseIP_sample ''a'' [''10.0.0.1''] (service removed) = (False, service removed)"
    by blast
  from inst1 h1 h2 h3 have c2: "snd (loops stopped ! 0) = Exited"
    unfolding stopped_def by blast
  from inst1 h1 h2 h3 have c3: "hosts (service stopped) = hosts (service removed)"
    unfolding stopped_def by simp
  note inst2 = removed_host_stops_loop [of ParseIP_sample "''a''" "[''10.0.0.1'']"
      "service removed" 0 stopped later_events]
  from inst2 h4 c2 have c4: "snd (loops (run ParseIP_sample later_events stopped) ! 0) = Exited"
    by blast
  from inst2 h4 c2 have "run ParseIP_sample later_events stopped =
       run ParseIP_sample (filter (\<lambda>e. \<not> step_of 0 e) later_events) stopped"
    by blast
  then have c5: "run ParseIP_sample later_events stopped =
       run ParseIP_sample [CallAddHost ''a'', GoStart 1, GoCycle 1 (Inr [''10.0.0.3''])] stopped"
    by (simp only: f)
  from h1 h2 h3 h4 c1 c2 c3 c4 c5 show ?thesis by blast
qed

subsection \<open>C9: the lock held while a refresh writes\<close>

text \<open>
  C9 says that a refresh writes the record's lists and cursor under the write lock, in
  one critical section, as one replacement. In the code \<^verbatim>\<open>updateHostIPs\<close> never
  takes the write lock: it releases the read lock after the map lookup, and every field
  write comes after that, one field at a time, into the record the map points to.
  \<^verbatim>\<open>GetNextIPWithIdx\<close>, the other writer of the cursor, writes between
  \<^verbatim>\<open>Lock\<close> and \<^verbatim>\<open>Unlock\<close>.

  The run below has host \<^verbatim>\<open>a\<close> with five IPv4 addresses and the cursor at 3, and a
  refresh that returns two addresses. All five field writes are made with the lock not
  held; after the first of them the record has the two new strings beside the five old
  binary addresses.
\<close>

theorem refresh_writes_without_lock:
  "Mapping.lookup (hosts (service (run ParseIP_sample five_events (boot ''t'')))) ''a''
     = Some five_record
   \<and> updateHostIPs_actions ParseIP_sample ''a'' [''10.0.0.2'', ''10.0.0.1'']
       (service (run ParseIP_sample five_events (boot ''t''))) =
       [RLock, ReadHosts ''a'', RUnlock,
        WriteIp4 [''10.0.0.1'', ''10.0.0.2''], WriteIp6 [],
        WriteIpv4 [v4in6 10 0 0 2, v4in6 10 0 0 1], WriteIpv6 [], WriteIdx 0]
   \<and> unguarded Unheld (updateHostIPs_actions ParseIP_sample ''a'' [''10.0.0.2'', ''10.0.0.1'']
       (service (run ParseIP_sample five_events (boot ''t'')))) =
       [WriteIp4 [''10.0.0.1'', ''10.0.0.2''], WriteIp6 [],
        WriteIpv4 [v4in6 10 0 0 2, v4in6 10 0 0 1], WriteIpv6 [], WriteIdx 0]
   \<and> replay (take 4 (updateHostIPs_actions ParseIP_sample ''a'' [''10.0.0.2'', ''10.0.0.1'']
       (service (run ParseIP_sample five_events (boot ''t''))))) five_record =
       five_record\<lparr>ip4 := [''10.0.0.1'', ''10.0.0.2'']\<rparr>
   \<and> replay (updateHostIPs_actions ParseIP_sample ''a'' [''10.0.0.2'', ''10.0.0.1'']
       (service (run ParseIP_sample five_events (boot ''t'')))) five_record = two_record
   \<and> unguarded Unheld (GetNextIPWithIdx_actions ''a''
       (service (run ParseIP_sample five_events (boot ''t'')))) = []"
  by code_simp

subsection \<open>C10: what the queries leave alone\<close>

text \<open>
  C10. \<^verbatim>\<open>GetNextIPWithIdx\<close> leaves every other host's record as it was, changes
  at most the cursor of the queried host's record, and leaves the key set, the tag and
  the log alone; for an unknown host it changes nothing. \<^verbatim>\<open>GetNextIP\<close> leaves the
  same state. \<^verbatim>\<open>GetIPs\<close>, \<^verbatim>\<open>GetIPsStr\<close>, \<^verbatim>\<open>Dump\<close> and \<^verbatim>\<open>DumpPrefix\<close> return the
  state unchanged.
\<close>

theorem queries_frame:
  "(h' \<noteq> h \<longrightarrow>
      Mapping.lookup (hosts (snd (GetNextIPWithIdx h s))) h' = Mapping.lookup (hosts s) h')
   \<and> (Mapping.lookup (hosts s) h = None \<longrightarrow> snd (GetNextIPWithIdx h s) = s)
   \<and> (Mapping.lookup (hosts s) h = Some r \<longrightarrow>
        (\<exists>c. Mapping.lookup (hosts (snd (GetNextIPWithIdx h s))) h = Some (r\<lparr>idx := c\<rparr>)))
   \<and> Mapping.keys (hosts (snd (GetNextIPWithIdx h s))) = Mapping.keys (hosts s)
   \<and> tag (snd (GetNextIPWithIdx h s)) = tag s
   \<and> log (snd (GetNextIPWithIdx h s)) = log s
   \<and> snd (GetNextIP h s) = snd (GetNextIPWithIdx h s)
   \<and> snd (GetIPs h s) = s \<and> snd (GetIPsStr h s) = s
   \<and> snd (Dump s) = s \<and> snd (DumpPrefix prefix s) = s"
proof (intro conjI impI)
  assume "h' \<noteq> h"
  then show "Mapping.lookup (hosts (snd (GetNextIPWithIdx h s))) h' = Mapping.lookup (hosts s) h'"
    by (simp add: GetNextIPWithIdx_snd split: option.splits)
next
  assume "Mapping.lookup (hosts s) h = None"
  then show "snd (GetNextIPWithIdx h s) = s"
    by (simp add: GetNextIPWithIdx_snd)
next
  assume a: "Mapping.lookup (hosts s) h = Some r"
  show "\<exists>c. Mapping.lookup (hosts (snd (GetNextIPWithIdx h s))) h = Some (r\<lparr>idx := c\<rparr>)"
  proof (cases "ip4 r = []")
    case True
    with a have "Mapping.lookup (hosts (snd (GetNextIPWithIdx h s))) h = Some (r\<lparr>idx := idx r\<rparr>)"
      by (simp add: GetNextIPWithIdx_snd)
    then show ?thesis ..
  next
    case False
    with a have "Mapping.lookup (hosts (snd (GetNextIPWithIdx h s))) h =
        Some (r\<lparr>idx := (idx r + 1) smod int (length (ip4 r))\<rparr>)"
      by (simp add: GetNextIPWithIdx_snd)
    then show ?thesis ..
  qed
next
  show "Mapping.keys (hosts (snd (GetNextIPWithIdx h s))) = Mapping.keys (hosts s)"
    by (auto simp: GetNextIPWithIdx_snd keys_update_present split: option.splits)
next
  show "snd (GetNextIP h s) = snd (GetNextIPWithIdx h s)" by (rule GetNextIP_snd)
qed (simp_all add: GetNextIPWithIdx_snd GetIPs_def GetIPsStr_def Dump_def DumpPrefix_def
       split: option.splits)

theorem queries_frame_witness:
  "Mapping.lookup (hosts (service (run ParseIP_sample demo_events (boot ''t'')))) ''a''
     = Some demo_record
   \<and> ''b'' \<noteq> ''a''
   \<and> Mapping.lookup (hosts (snd (GetNextIPWithIdx ''a''
         (service (AddHost ''b'' (run ParseIP_sample demo_events (boot ''t'')))))) ) ''b''
       = Some ips_zero
   \<and> (\<exists>c. Mapping.lookup (hosts (snd (GetNextIPWithIdx ''a''
         (service (run ParseIP_sample demo_events (boot ''t'')))))) ''a''
       = Some (demo_record\<lparr>idx := c\<rparr>))"
proof -
  have h1: "Mapping.lookup (hosts (service (run ParseIP_sample demo_events (boot ''t'')))) ''a''
     = Some demo_record"
    by code_simp
  have h2: "''b'' \<noteq> ''a''" by simp
  have h3: "Mapping.lookup (hosts (service (AddHost ''b''
      (run ParseIP_sample demo_events (boot ''t''))))) ''b'' = Some ips_zero"
    by code_simp
  from queries_frame [of "''b''" "''a''"
      "service (AddHost ''b'' (run ParseIP_sample demo_events (boot ''t'')))"] h2 h3
  have c1: "Mapping.lookup (hosts (snd (GetNextIPWithIdx ''a''
         (service (AddHost ''b'' (run ParseIP_sample demo_events (boot ''t'')))))) ) ''b''
       = Some ips_zero"
    by simp
  from queries_frame [of _ "''a''" "service (run ParseIP_sample demo_events (boot ''t''))"
      demo_record] h1
  have c2: "\<exists>c. Mapping.lookup (hosts (snd (GetNextIPWithIdx ''a''
         (service (run ParseIP_sample demo_events (boot ''t'')))))) ''a''
       = Some (demo_record\<lparr>idx := c\<rparr>)"
    by blast
  from h1 h2 c1 c2 show ?thesis by blast
qed

end
